theory Spec2Isabelle
  imports Complex_Main "HOL-Library.AList"
begin

section \<open>The statistics panel (src/components/StatsTab.tsx)\<close>

text \<open>
  The panel polls one status endpoint, keeps the last snapshot, an error message, a
  loading flag and a log holding the latest outcome of each endpoint, and derives display
  strings from the snapshot. The development follows the component top to bottom: the
  values of the language that the component relies on (strings, numbers, objects), the
  component's state, \<open>logApiCall\<close>, \<open>fetchSystemStats\<close>, the polling effect and the three
  formatting helpers.

  Conventions. A JavaScript string is a \<open>string\<close> of bytes (UTF-8 for the Korean literals
  of the source). A JavaScript number that holds an integer is an \<open>int\<close>; the double
  arithmetic the source performs on such numbers (\<open>/\<close>, \<open>%\<close>, \<open>Math.floor\<close>, \<open>toFixed\<close>) is
  exact for the safe integers, those of magnitude at most \<open>2^53 - 1\<close>, and the definitions
  below are the code on that range. \<open>null\<close> and \<open>undefined\<close> are \<open>None\<close>.
\<close>

subsection \<open>Numbers and their decimal rendering\<close>







subsection \<open>Strings\<close>

definition toLowerCaseChar :: "char \<Rightarrow> char" where
  "toLowerCaseChar c =
     (let n = (of_char c :: nat) in if 65 \<le> n \<and> n \<le> 90 then char_of (n + 32) else c)"

text \<open>
  \<open>String.prototype.toLowerCase\<close> on the ASCII letters; every other byte is kept. (The
  language also maps letters outside ASCII; of those only U+212A maps into ASCII, to
  \<open>k\<close>, a letter that none of the labels compared below contains.)
\<close>

definition toLowerCase :: "string \<Rightarrow> string" where
  "toLowerCase s = map toLowerCaseChar s"

subsection \<open>Objects used as dictionaries\<close>

text \<open>
  \<open>Record<string, V>\<close> is an ordinary object: a list of own properties in the order of
  their creation. Its enumeration order (\<open>Object.keys\<close>, \<open>Object.entries\<close>, the spread
  \<open>{...prev}\<close>) is fixed by the language: first the keys that are array indices, in
  ascending numeric order, then all other keys in the order of their creation.
\<close>

type_synonym 'v jsobject = "(string \<times> 'v) list"

definition isDigit :: "char \<Rightarrow> bool" where
  "isDigit c = (48 \<le> (of_char c :: nat) \<and> (of_char c :: nat) \<le> 57)"

definition digitsValue :: "string \<Rightarrow> nat" where
  "digitsValue k = foldl (\<lambda>n c. 10 * n + ((of_char c :: nat) - 48)) 0 k"

text \<open>An array index is the canonical decimal string of an integer from 0 to \<open>2^32 - 2\<close>.\<close>

definition isArrayIndex :: "string \<Rightarrow> bool" where
  "isArrayIndex k =
     (k \<noteq> [] \<and> list_all isDigit k \<and> (if hd k = CHR ''0'' then k = ''0'' else True)
      \<and> digitsValue k \<le> 4294967294)"

definition Object_entries :: "'v jsobject \<Rightarrow> (string \<times> 'v) list" where
  "Object_entries obj =
     sort_key (\<lambda>p. digitsValue (fst p)) (filter (\<lambda>p. isArrayIndex (fst p)) obj)
     @ filter (\<lambda>p. \<not> isArrayIndex (fst p)) obj"

definition Object_keys :: "'v jsobject \<Rightarrow> string list" where
  "Object_keys obj = map fst (Object_entries obj)"

text \<open>
  Writing a property: an existing key keeps its place and takes the new value, a new key
  is created after all others (\<open>AList.update\<close>). The object literal
  \<open>{...prev, [k]: v}\<close> creates a fresh object, copies the properties of \<open>prev\<close> in
  enumeration order and then writes \<open>k\<close>.
\<close>

definition copyDataProperties :: "'v jsobject \<Rightarrow> 'v jsobject \<Rightarrow> 'v jsobject" where
  "copyDataProperties target source =
     foldl (\<lambda>obj p. AList.update (fst p) (snd p) obj) target (Object_entries source)"

definition spreadWith :: "'v jsobject \<Rightarrow> string \<Rightarrow> 'v \<Rightarrow> 'v jsobject" where
  "spreadWith prev k v = AList.update k v (copyDataProperties [] prev)"

subsection \<open>Types of the component\<close>

record ModuleStatus =
  module_status :: string

record Modules =
  session :: ModuleStatus
  document_processor :: ModuleStatus
  retrieval :: ModuleStatus
  generation :: ModuleStatus

record MemoryUsage =
  rss :: int
  heap_used :: int
  heap_total :: int
  external :: int

record Performance =
  avg_response_time :: int
  total_requests :: int
  active_sessions :: int

text \<open>
  \<open>interface SystemStatus\<close>. Its field \<open>status\<close> is \<open>system_status\<close> here and the field
  \<open>status\<close> of a module is \<open>module_status\<close>, since \<open>ApiCallLog\<close> has a \<open>status\<close> too.
\<close>

record SystemStatus =
  system_status :: string
  uptime :: int
  modules :: Modules
  memory_usage :: MemoryUsage
  performance :: "Performance option"

datatype CallStatus = Success | Error

text \<open>
  \<open>interface ApiCallLog\<close>. The field \<open>error\<close> is \<open>log_error\<close> here: the component has a state
  variable \<open>error\<close> as well. \<open>data\<close> is a snapshot or \<open>null\<close>.
\<close>

record ApiCallLog =
  timestamp :: string
  endpoint :: string
  data :: "SystemStatus option"
  log_error :: "string option"
  status :: CallStatus

text \<open>The five \<open>useState\<close> variables of \<open>StatsTab\<close>, with their initial values.\<close>

record StatsTab =
  systemStatus :: "SystemStatus option"
  loading :: bool
  debugMode :: bool
  apiCalls :: "ApiCallLog jsobject"
  error :: "string option"

definition initialState :: StatsTab where
  "initialState =
     \<lparr>systemStatus = None, loading = False, debugMode = False, apiCalls = [], error = None\<rparr>"

subsection \<open>logApiCall\<close>

text \<open>
  \<open>logApiCall(endpoint, data, error?)\<close>. The optional argument is an \<open>Error\<close> object, given
  here by its message; an object is truthy whatever its message is, the empty message is
  falsy. \<open>now\<close> is the value of \<open>new Date().toISOString()\<close>. \<open>logEntry\<close> is the object
  literal of that name in the body, \<open>logApiCall\<close> the call of \<open>setApiCalls\<close> with its updater.
\<close>

definition logEntry ::
  "string \<Rightarrow> string \<Rightarrow> SystemStatus option \<Rightarrow> string option \<Rightarrow> ApiCallLog" where
  "logEntry now ep d err =
     \<lparr>timestamp = now,
      endpoint = ep,
      data = (if err \<noteq> None then None else d),
      log_error = (case err of None \<Rightarrow> None | Some m \<Rightarrow> if m \<noteq> [] then Some m else None),
      status = (if err \<noteq> None then Error else Success)\<rparr>"

definition logApiCall ::
  "string \<Rightarrow> string \<Rightarrow> SystemStatus option \<Rightarrow> string option \<Rightarrow> StatsTab \<Rightarrow> StatsTab" where
  "logApiCall now ep d err st =
     st\<lparr>apiCalls := spreadWith (apiCalls st) ep (logEntry now ep d err)\<rparr>"

subsection \<open>fetchSystemStats\<close>

text \<open>
  A value caught by \<open>catch (err: unknown)\<close>: an instance of \<open>Error\<close>, given by its message,
  or any other value, given by \<open>String(err)\<close>.
\<close>

datatype thrown = ErrorObject string | OtherValue string

text \<open>How the promise of \<open>adminService.getSystemStatus()\<close> settles.\<close>

datatype fetched = Resolved SystemStatus | Rejected thrown

definition statusEndpoint :: string where
  "statusEndpoint = ''/api/admin/status''"

text \<open>The fallback message of the \<open>catch\<close> block (a Korean sentence, in UTF-8).\<close>

definition unknownErrorMessage :: string where
  "unknownErrorMessage =
     [CHR 0xEC, CHR 0x95, CHR 0x8C, CHR 0x20, CHR 0xEC, CHR 0x88, CHR 0x98, CHR 0x20,
      CHR 0xEC, CHR 0x97, CHR 0x86, CHR 0xEB, CHR 0x8A, CHR 0x94, CHR 0x20, CHR 0xEC,
      CHR 0x98, CHR 0xA4, CHR 0xEB, CHR 0xA5, CHR 0x98, CHR 0xEA, CHR 0xB0, CHR 0x80,
      CHR 0x20, CHR 0xEB, CHR 0xB0, CHR 0x9C, CHR 0xEC, CHR 0x83, CHR 0x9D, CHR 0xED,
      CHR 0x96, CHR 0x88, CHR 0xEC, CHR 0x8A, CHR 0xB5, CHR 0xEB, CHR 0x8B, CHR 0x88,
      CHR 0xEB, CHR 0x8B, CHR 0xA4, CHR 0x2E]"

text \<open>
  The function is asynchronous. Its first part runs when it is called, up to the
  \<open>await\<close>: \<open>setLoading(true); setError(null)\<close> and the request. (The calls of \<open>console\<close>
  leave the state alone and are left out.)
\<close>

definition fetchSystemStats_begin :: "StatsTab \<Rightarrow> StatsTab" where
  "fetchSystemStats_begin st = st\<lparr>loading := True, error := None\<rparr>"

text \<open>
  The rest runs when the promise settles. The \<open>try\<close> block ends normally after logging and
  storing the snapshot, or abruptly, with the rejection of the awaited promise and no
  change of state; the second component is the exception that leaves the block.
\<close>

definition tryBlock :: "string \<Rightarrow> fetched \<Rightarrow> StatsTab \<Rightarrow> StatsTab \<times> thrown option" where
  "tryBlock now r st =
     (case r of
        Resolved statusData \<Rightarrow>
          ((logApiCall now statusEndpoint (Some statusData) None st)
             \<lparr>systemStatus := Some statusData\<rparr>, None)
      | Rejected err \<Rightarrow> (st, Some err))"

definition catchBlock :: "string \<Rightarrow> thrown \<Rightarrow> StatsTab \<Rightarrow> StatsTab" where
  "catchBlock now err st =
     (let errorMessage = (case err of ErrorObject m \<Rightarrow> m | OtherValue _ \<Rightarrow> unknownErrorMessage);
          errorObject = (case err of ErrorObject m \<Rightarrow> m | OtherValue s \<Rightarrow> s)
      in (logApiCall now statusEndpoint None (Some errorObject) st)\<lparr>error := Some errorMessage\<rparr>)"

definition finallyBlock :: "StatsTab \<Rightarrow> StatsTab" where
  "finallyBlock st = st\<lparr>loading := False\<rparr>"

text \<open>
  The result is the state after the \<open>finally\<close> block and the exception with which the
  promise of \<open>fetchSystemStats\<close> itself rejects, if any.
\<close>

definition fetchSystemStats_settle ::
  "string \<Rightarrow> fetched \<Rightarrow> StatsTab \<Rightarrow> StatsTab \<times> thrown option" where
  "fetchSystemStats_settle now r st =
     (let (st1, exn) = tryBlock now r st;
          (st2, exn) = (case exn of None \<Rightarrow> (st1, None)
                        | Some err \<Rightarrow> (catchBlock now err st1, None))
      in (finallyBlock st2, exn))"


subsection \<open>The polling effect\<close>

text \<open>
  The mounted component in its environment: the state variables, the clock in
  milliseconds, the time at which the timer created by \<open>setInterval\<close> fires next (\<open>None\<close>
  when there is no timer), the times at which \<open>fetchSystemStats\<close> has been called, and the
  number of requests that have not settled yet.
\<close>

record Component =
  state :: StatsTab
  clock :: nat
  interval :: "nat option"
  invocations :: "nat list"
  inFlight :: nat

definition newComponent :: Component where
  "newComponent =
     \<lparr>state = initialState, clock = 0, interval = None, invocations = [], inFlight = 0\<rparr>"

definition invoke :: "Component \<Rightarrow> Component" where
  "invoke c =
     c\<lparr>state := fetchSystemStats_begin (state c),
       invocations := invocations c @ [clock c],
       inFlight := inFlight c + 1\<rparr>"

text \<open>
  The body of \<open>useEffect\<close>: \<open>fetchSystemStats(); setInterval(fetchSystemStats, 30000)\<close>, and
  the cleanup it returns: \<open>clearInterval(interval)\<close>. The dependency \<open>fetchSystemStats\<close> never
  changes, so the body runs when the component is mounted and the cleanup when it is
  unmounted.
\<close>

definition useEffect_body :: "Component \<Rightarrow> Component" where
  "useEffect_body c = (let c1 = invoke c in c1\<lparr>interval := Some (clock c1 + 30000)\<rparr>)"

definition useEffect_cleanup :: "Component \<Rightarrow> Component" where
  "useEffect_cleanup c = c\<lparr>interval := None\<rparr>"

text \<open>
  The passing of \<open>d\<close> milliseconds, with a timer that fires exactly when it is due: the
  timer, if there is one, calls \<open>fetchSystemStats\<close> at each of its due times and is due again
  30000 ms later.
\<close>

function elapse :: "nat \<Rightarrow> Component \<Rightarrow> Component" where
  "elapse d c =
     (case interval c of
        None \<Rightarrow> c\<lparr>clock := clock c + d\<rparr>
      | Some due \<Rightarrow>
          if due \<le> clock c + d
          then elapse (clock c + d - due) (invoke (c\<lparr>clock := due, interval := Some (due + 30000)\<rparr>))
          else c\<lparr>clock := clock c + d\<rparr>)"
  by pat_completeness auto
termination
  by (relation "measure (\<lambda>(d, c). case interval c of None \<Rightarrow> 0
                                   | Some due \<Rightarrow> clock c + d + 1 - due)")
     (auto simp: invoke_def)

declare elapse.simps [simp del]

text \<open>
  A request in flight settles: the rest of \<open>fetchSystemStats\<close> runs on the current state.
  Nothing settles when no request is in flight.
\<close>

definition settle :: "string \<Rightarrow> fetched \<Rightarrow> Component \<Rightarrow> Component" where
  "settle now r c =
     (if inFlight c = 0 then c
      else c\<lparr>state := fst (fetchSystemStats_settle now r (state c)),
             inFlight := inFlight c - 1\<rparr>)"

text \<open>What can happen to the component without the user: time passes, a request settles.\<close>

datatype event = Elapse nat | Settle string fetched

fun occur :: "event \<Rightarrow> Component \<Rightarrow> Component" where
  "occur (Elapse d) c = elapse d c"
| "occur (Settle now r) c = settle now r c"

definition run :: "event list \<Rightarrow> Component \<Rightarrow> Component" where
  "run es c = foldl (\<lambda>c e. occur e c) c es"

subsection \<open>Formatting helpers\<close>







text \<open>The \<open>switch\<close> compares the lowered label with each \<open>case\<close> in turn.\<close>

definition getStatusColor :: "string \<Rightarrow> string" where
  "getStatusColor statusLabel =
     (let s = toLowerCase statusLabel in
      if s = ''healthy'' \<or> s = ''active'' \<or> s = ''running'' then ''success''
      else if s = ''warning'' then ''warning''
      else if s = ''error'' \<or> s = ''failed'' then ''error''
      else ''default'')"

text \<open>The letters \<open>a\<close> to \<open>z\<close>, of which the labels consist.\<close>

definition isLowerCaseLetter :: "char \<Rightarrow> bool" where
  "isLowerCaseLetter d = (97 \<le> (of_char d :: nat) \<and> (of_char d :: nat) \<le> 122)"

text \<open>
  A label in some casing, in the words of the specification: letter by letter the label
  itself or its capital, whose code is 32 below.
\<close>

definition sameLetter :: "char \<Rightarrow> char \<Rightarrow> bool" where
  "sameLetter c d = (c = d \<or> (of_char c :: nat) + 32 = of_char d)"

definition casingOf :: "string \<Rightarrow> string \<Rightarrow> bool" where
  "casingOf w s = list_all2 sameLetter s w"

subsection \<open>Sequences of calls, and values used in the examples\<close>








definition snapshotA :: SystemStatus where
  "snapshotA =
     \<lparr>system_status = ''healthy'', uptime = 3661,
      modules = \<lparr>session = \<lparr>module_status = ''active''\<rparr>,
                 document_processor = \<lparr>module_status = ''active''\<rparr>,
                 retrieval = \<lparr>module_status = ''active''\<rparr>,
                 generation = \<lparr>module_status = ''active''\<rparr>\<rparr>,
      memory_usage = \<lparr>rss = 1572864, heap_used = 1048576, heap_total = 2097152, external = 0\<rparr>,
      performance = None\<rparr>"


section \<open>Properties\<close>

subsection \<open>The object model\<close>

lemma map_of_spreadWith_same: "map_of (spreadWith prev k v) k = Some v"
  by (simp add: spreadWith_def update_conv')

lemma set_Object_entries: "set (Object_entries obj) = set obj"
  by (auto simp: Object_entries_def)

lemma set_Object_keys: "set (Object_keys obj) = fst ` set obj"
  by (simp add: Object_keys_def set_Object_entries)

lemma distinct_keys_Object_entries:
  "distinct (map fst obj) \<Longrightarrow> distinct (map fst (Object_entries obj))"
  by (auto simp: Object_entries_def distinct_map inj_on_def)

lemma map_of_Object_entries:
  "distinct (map fst obj) \<Longrightarrow> map_of (Object_entries obj) = map_of obj"
  by (simp add: map_of_inject_set distinct_keys_Object_entries set_Object_entries)



lemma update_fresh: "k \<notin> fst ` set al \<Longrightarrow> AList.update k v al = al @ [(k, v)]"
  by (induction al) auto


text \<open>Copying properties with distinct keys into an object that has none of them appends them.\<close>

lemma foldl_update_distinct:
  "distinct (map fst (acc @ ps)) \<Longrightarrow>
     foldl (\<lambda>obj p. AList.update (fst p) (snd p) obj) acc ps = acc @ ps"
proof (induction ps arbitrary: acc)
  case Nil
  show ?case by simp
next
  case (Cons p ps)
  have fresh: "fst p \<notin> fst ` set acc" using Cons.prems by auto
  have "distinct (map fst ((acc @ [p]) @ ps))" using Cons.prems by simp
  from Cons.IH [OF this] show ?case by (simp add: update_fresh [OF fresh])
qed

lemma copyDataProperties_empty:
  "distinct (map fst obj) \<Longrightarrow> copyDataProperties [] obj = Object_entries obj"
  using foldl_update_distinct [of "[]" "Object_entries obj"]
  by (simp add: copyDataProperties_def distinct_keys_Object_entries)

lemma distinct_foldl_update:
  "distinct (map fst acc) \<Longrightarrow>
     distinct (map fst (foldl (\<lambda>obj p. AList.update (fst p) (snd p) obj) acc ps))"
  by (induction ps arbitrary: acc) (simp_all add: distinct_update)

lemma distinct_spreadWith: "distinct (map fst (spreadWith prev k v))"
  by (simp add: spreadWith_def copyDataProperties_def distinct_update distinct_foldl_update)

lemma map_of_spreadWith:
  "distinct (map fst prev) \<Longrightarrow> map_of (spreadWith prev k v) = (map_of prev)(k \<mapsto> v)"
  by (simp add: spreadWith_def update_conv' copyDataProperties_empty map_of_Object_entries)





subsection \<open>The call logger\<close>

lemma apiCalls_logApiCall:
  "apiCalls (logApiCall now ep d err st) = spreadWith (apiCalls st) ep (logEntry now ep d err)"
  by (simp add: logApiCall_def)

text \<open>
  C9. Logging an \<open>Error\<close> whose message is the empty string stores, under the endpoint, an
  entry with status \<open>error\<close> and data \<open>null\<close> whose error field is \<open>null\<close>, not the empty
  string: the entry is in the error state and carries no message.
\<close>

theorem logApiCall_empty_message:
  "map_of (apiCalls (logApiCall now ep d (Some '''') st)) ep =
     Some \<lparr>timestamp = now, endpoint = ep, data = None, log_error = None, status = Error\<rparr>"
  by (simp add: logApiCall_def logEntry_def map_of_spreadWith_same)

theorem logApiCall_empty_message_witness:
  "map_of (apiCalls (logApiCall ''2024-01-01T00:00:00.000Z'' ''/api/admin/status'' None
       (Some '''') initialState)) ''/api/admin/status'' =
     Some \<lparr>timestamp = ''2024-01-01T00:00:00.000Z'', endpoint = ''/api/admin/status'',
           data = None, log_error = None, status = Error\<rparr>"
  using logApiCall_empty_message
    [of "''2024-01-01T00:00:00.000Z''" "''/api/admin/status''" None initialState]
  by simp

text \<open>
  C10. One call of the logger for the endpoint \<open>ep\<close>, on a log that is an object (no two
  properties with the same key), leaves the entry of every other key as it was, and the
  keys after the call are the keys before it together with \<open>ep\<close>: no key is removed. The
  log is an object again afterwards.
\<close>

theorem logApiCall_frame:
  assumes "distinct (map fst (apiCalls st))"
  shows "(\<forall>k. k \<noteq> ep \<longrightarrow>
            map_of (Object_entries (apiCalls (logApiCall now ep d err st))) k
              = map_of (Object_entries (apiCalls st)) k)
         \<and> set (Object_keys (apiCalls (logApiCall now ep d err st)))
              = insert ep (set (Object_keys (apiCalls st)))
         \<and> distinct (map fst (apiCalls (logApiCall now ep d err st)))"
proof -
  let ?L = "apiCalls (logApiCall now ep d err st)"
  have wf: "distinct (map fst ?L)"
    by (simp add: apiCalls_logApiCall distinct_spreadWith)
  have m: "map_of ?L = (map_of (apiCalls st))(ep \<mapsto> logEntry now ep d err)"
    by (simp add: apiCalls_logApiCall map_of_spreadWith [OF assms])
  have "\<forall>k. k \<noteq> ep \<longrightarrow> map_of (Object_entries ?L) k = map_of (Object_entries (apiCalls st)) k"
    by (simp add: map_of_Object_entries wf assms m)
  moreover have "set (Object_keys ?L) = insert ep (set (Object_keys (apiCalls st)))"
  proof -
    have "dom (map_of ?L) = insert ep (dom (map_of (apiCalls st)))" by (simp add: m)
    then show ?thesis by (simp add: set_Object_keys dom_map_of_conv_image_fst)
  qed
  ultimately show ?thesis using wf by blast
qed

theorem logApiCall_frame_witness:
  "distinct (map fst (apiCalls
      (logApiCall ''t1'' ''/api/admin/documents'' None (Some ''timeout'') initialState)))
   \<and> map_of (Object_entries (apiCalls (logApiCall ''t2'' ''/api/admin/status'' (Some snapshotA) None
        (logApiCall ''t1'' ''/api/admin/documents'' None (Some ''timeout'') initialState))))
        ''/api/admin/documents''
     = Some \<lparr>timestamp = ''t1'', endpoint = ''/api/admin/documents'', data = None,
             log_error = Some ''timeout'', status = Error\<rparr>
   \<and> set (Object_keys (apiCalls (logApiCall ''t2'' ''/api/admin/status'' (Some snapshotA) None
        (logApiCall ''t1'' ''/api/admin/documents'' None (Some ''timeout'') initialState))))
     = {''/api/admin/status'', ''/api/admin/documents''}"
proof -
  let ?st = "logApiCall ''t1'' ''/api/admin/documents'' None (Some ''timeout'') initialState"
  have wf: "distinct (map fst (apiCalls ?st))" by code_simp
  have e: "map_of (Object_entries (apiCalls ?st)) ''/api/admin/documents''
     = Some \<lparr>timestamp = ''t1'', endpoint = ''/api/admin/documents'', data = None,
             log_error = Some ''timeout'', status = Error\<rparr>" by code_simp
  have k: "set (Object_keys (apiCalls ?st)) = {''/api/admin/documents''}" by code_simp
  show ?thesis
    using logApiCall_frame [OF wf, of "''/api/admin/status''" "''t2''" "Some snapshotA" None] wf e k
    by simp
qed

subsection \<open>Sequences of calls of the logger\<close>














subsection \<open>Poll cycles\<close>







subsection \<open>The polling effect and the teardown\<close>

lemma invoke_fields [simp]:
  "clock (invoke c) = clock c" "interval (invoke c) = interval c"
  "invocations (invoke c) = invocations c @ [clock c]"
  "inFlight (invoke c) = inFlight c + 1"
  "state (invoke c) = fetchSystemStats_begin (state c)"
  by (simp_all add: invoke_def)

lemma useEffect_body_fields:
  "clock (useEffect_body c) = clock c"
  "interval (useEffect_body c) = Some (clock c + 30000)"
  "invocations (useEffect_body c) = invocations c @ [clock c]"
  "inFlight (useEffect_body c) = inFlight c + 1"
  "state (useEffect_body c) = fetchSystemStats_begin (state c)"
  by (simp_all add: useEffect_body_def Let_def)

lemma elapse_no_timer: "interval c = None \<Longrightarrow> elapse d c = c\<lparr>clock := clock c + d\<rparr>"
  by (simp add: elapse.simps)

lemma elapse_early:
  "interval c = Some due \<Longrightarrow> clock c + d < due \<Longrightarrow> elapse d c = c\<lparr>clock := clock c + d\<rparr>"
  by (simp add: elapse.simps)

lemma elapse_due:
  "interval c = Some due \<Longrightarrow> due \<le> clock c + d \<Longrightarrow>
     elapse d c = elapse (clock c + d - due) (invoke (c\<lparr>clock := due, interval := Some (due + 30000)\<rparr>))"
  by (subst elapse.simps) simp

text \<open>
  With the timer due one period from now, the passing of \<open>d\<close> milliseconds brings one call
  for every full period.
\<close>

lemma elapse_count:
  "interval c = Some (clock c + 30000) \<Longrightarrow>
     length (invocations (elapse d c)) = length (invocations c) + d div 30000"
proof (induction d arbitrary: c rule: less_induct)
  case (less d)
  show ?case
  proof (cases "d < 30000")
    case True
    then show ?thesis using less.prems by (simp add: elapse_early)
  next
    case False
    let ?c = "invoke (c\<lparr>clock := clock c + 30000, interval := Some (clock c + 30000 + 30000)\<rparr>)"
    have step: "elapse d c = elapse (d - 30000) ?c"
      using False less.prems elapse_due [of c "clock c + 30000" d] by simp
    have "length (invocations (elapse (d - 30000) ?c))
            = length (invocations ?c) + (d - 30000) div 30000"
      using False by (intro less.IH) simp_all
    moreover have "(d - 30000) div 30000 + 1 = d div 30000"
      using False by (simp add: le_div_geq)
    ultimately show ?thesis by (simp add: step)
  qed
qed

text \<open>Time may pass in one piece or in two.\<close>

lemma elapse_add:
  "(case interval c of None \<Rightarrow> True | Some due \<Rightarrow> clock c < due) \<Longrightarrow>
     elapse e (elapse d c) = elapse (d + e) c"
proof (induction d c rule: elapse.induct)
  case (1 d c)
  show ?case
  proof (cases "interval c")
    case None
    then show ?thesis by (simp add: elapse_no_timer add.assoc)
  next
    case (Some due)
    show ?thesis
    proof (cases "due \<le> clock c + d")
      case True
      let ?c = "invoke (c\<lparr>clock := due, interval := Some (due + 30000)\<rparr>)"
      have "elapse e (elapse (clock c + d - due) ?c) = elapse (clock c + d - due + e) ?c"
        using Some True by (intro "1.IH") simp_all
      moreover have "elapse d c = elapse (clock c + d - due) ?c"
        using Some True by (rule elapse_due)
      moreover have "elapse (d + e) c = elapse (clock c + (d + e) - due) ?c"
        using Some True by (intro elapse_due) simp_all
      moreover have "clock c + d - due + e = clock c + (d + e) - due"
        using True by simp
      ultimately show ?thesis by simp
    next
      case False
      then have d: "elapse d c = c\<lparr>clock := clock c + d\<rparr>"
        using Some by (simp add: elapse_early)
      show ?thesis
      proof (cases "due \<le> clock c + d + e")
        case True
        have "elapse e (c\<lparr>clock := clock c + d\<rparr>)
          = elapse (clock c + d + e - due)
              (invoke (c\<lparr>clock := clock c + d\<rparr>\<lparr>clock := due, interval := Some (due + 30000)\<rparr>))"
          using Some True elapse_due [of "c\<lparr>clock := clock c + d\<rparr>" due e] by simp
        moreover have "elapse (d + e) c
          = elapse (clock c + (d + e) - due) (invoke (c\<lparr>clock := due, interval := Some (due + 30000)\<rparr>))"
          using Some True by (intro elapse_due) simp_all
        ultimately show ?thesis by (simp add: d add.assoc)
      next
        case False
        then show ?thesis using Some d by (simp add: elapse_early add.assoc)
      qed
    qed
  qed
qed

lemma settle_fields:
  "interval (settle now r c) = interval c" "invocations (settle now r c) = invocations c"
  "clock (settle now r c) = clock c"
  by (simp_all add: settle_def)

lemma run_no_timer:
  "interval c = None \<Longrightarrow> interval (run es c) = None \<and> invocations (run es c) = invocations c"
proof (induction es arbitrary: c)
  case Nil
  then show ?case by (simp add: run_def)
next
  case (Cons e es)
  have "interval (occur e c) = None \<and> invocations (occur e c) = invocations c"
    using Cons.prems by (cases e) (simp_all add: elapse_no_timer settle_fields)
  then show ?case using Cons.IH [of "occur e c"] by (simp add: run_def)
qed


text \<open>
  C4. The effect calls \<open>fetchSystemStats\<close> once immediately, at the time of mounting and before
  the clock moves. After \<open>N\<close> periods of 30000 ms there have been \<open>N + 1\<close> calls since
  mounting (after \<open>d\<close> ms: one more than the full periods in \<open>d\<close>). After the cleanup no call
  is added, whatever time passes and whichever requests settle.
\<close>

theorem polling_schedule:
  "invocations (useEffect_body c) = invocations c @ [clock c]
   \<and> clock (useEffect_body c) = clock c
   \<and> length (invocations (elapse (N * 30000) (useEffect_body c))) = length (invocations c) + (N + 1)
   \<and> length (invocations (elapse d (useEffect_body c))) = length (invocations c) + (d div 30000 + 1)
   \<and> invocations (run es (useEffect_cleanup c)) = invocations c"
proof -
  have timer: "interval (useEffect_body c) = Some (clock (useEffect_body c) + 30000)"
    by (simp add: useEffect_body_fields)
  have count: "length (invocations (elapse t (useEffect_body c)))
      = length (invocations c) + (t div 30000 + 1)" for t
    using elapse_count [OF timer, of t] by (simp add: useEffect_body_fields)
  have stopped: "invocations (run es (useEffect_cleanup c)) = invocations c"
    using run_no_timer [of "useEffect_cleanup c" es] by (simp add: useEffect_cleanup_def)
  show ?thesis
    using count [of "N * 30000"] count [of d] stopped by (simp add: useEffect_body_fields)
qed

theorem polling_schedule_witness:
  "invocations (useEffect_body newComponent) = [0]
   \<and> length (invocations (elapse (3 * 30000) (useEffect_body newComponent))) = 4
   \<and> length (invocations (elapse 89999 (useEffect_body newComponent))) = 3
   \<and> invocations (run [Elapse 1000000, Settle ''t1'' (Resolved snapshotA), Elapse 30000]
        (useEffect_cleanup (useEffect_body newComponent))) = [0]"
  using polling_schedule [of newComponent 3 89999
      "[Elapse 1000000, Settle ''t1'' (Resolved snapshotA), Elapse 30000]"]
    polling_schedule [of "useEffect_body newComponent" 3 89999
      "[Elapse 1000000, Settle ''t1'' (Resolved snapshotA), Elapse 30000]"]
  by (simp add: newComponent_def)




subsection \<open>formatUptime and formatBytes\<close>




















subsection \<open>getStatusColor\<close>

lemma toLowerCaseChar_iff:
  assumes "isLowerCaseLetter d"
  shows "(toLowerCaseChar c = d) = sameLetter c d"
proof (cases "65 \<le> (of_char c :: nat) \<and> (of_char c :: nat) \<le> 90")
  case True
  then have "c \<noteq> d" using assms by (auto simp: isLowerCaseLetter_def)
  moreover have "(char_of ((of_char c :: nat) + 32) = d) = ((of_char c :: nat) + 32 = of_char d)"
    using True by (auto simp: char_of_eq_iff take_bit_eq_mod)
  ultimately show ?thesis using True by (simp add: toLowerCaseChar_def sameLetter_def Let_def)
next
  case False
  then have "(of_char c :: nat) + 32 \<noteq> of_char d"
    using assms by (auto simp: isLowerCaseLetter_def)
  then show ?thesis using False by (auto simp: toLowerCaseChar_def sameLetter_def Let_def)
qed

lemma toLowerCase_iff:
  "list_all isLowerCaseLetter w \<Longrightarrow> (toLowerCase s = w) = casingOf w s"
proof (induction s arbitrary: w)
  case Nil
  show ?case by (auto simp: toLowerCase_def casingOf_def)
next
  case (Cons c s)
  show ?case
  proof (cases w)
    case Nil
    then show ?thesis by (simp add: toLowerCase_def casingOf_def)
  next
    case (Cons d w')
    then have "isLowerCaseLetter d" and "list_all isLowerCaseLetter w'"
      using Cons.prems by simp_all
    then show ?thesis
      using Cons.IH [of w'] Cons
      by (simp add: toLowerCase_def casingOf_def toLowerCaseChar_iff)
  qed
qed

lemma labels_lower:
  "list_all isLowerCaseLetter ''healthy''" "list_all isLowerCaseLetter ''active''"
  "list_all isLowerCaseLetter ''running''" "list_all isLowerCaseLetter ''warning''"
  "list_all isLowerCaseLetter ''error''" "list_all isLowerCaseLetter ''failed''"
  by (simp_all add: isLowerCaseLetter_def)

text \<open>
  C8. The label is classified whatever its casing: \<open>healthy\<close>, \<open>active\<close> and \<open>running\<close> give
  \<open>success\<close>, \<open>warning\<close> gives \<open>warning\<close>, \<open>error\<close> and \<open>failed\<close> give \<open>error\<close>, every other string
  gives \<open>default\<close>.
\<close>

theorem getStatusColor_buckets:
  "(casingOf ''healthy'' s \<or> casingOf ''active'' s \<or> casingOf ''running'' s
      \<longrightarrow> getStatusColor s = ''success'')
   \<and> (casingOf ''warning'' s \<longrightarrow> getStatusColor s = ''warning'')
   \<and> (casingOf ''error'' s \<or> casingOf ''failed'' s \<longrightarrow> getStatusColor s = ''error'')
   \<and> (\<not> (casingOf ''healthy'' s \<or> casingOf ''active'' s \<or> casingOf ''running'' s
           \<or> casingOf ''warning'' s \<or> casingOf ''error'' s \<or> casingOf ''failed'' s)
        \<longrightarrow> getStatusColor s = ''default'')
   \<and> getStatusColor ''HEALTHY'' = ''success''
   \<and> getStatusColor ''healthy'' = ''success''
   \<and> getStatusColor ''unknown-label'' = ''default''"
proof -
  have iff: "(toLowerCase s = ''healthy'') = casingOf ''healthy'' s"
      "(toLowerCase s = ''active'') = casingOf ''active'' s"
      "(toLowerCase s = ''running'') = casingOf ''running'' s"
      "(toLowerCase s = ''warning'') = casingOf ''warning'' s"
      "(toLowerCase s = ''error'') = casingOf ''error'' s"
      "(toLowerCase s = ''failed'') = casingOf ''failed'' s"
    by (simp_all only: toLowerCase_iff [OF labels_lower(1)] toLowerCase_iff [OF labels_lower(2)]
        toLowerCase_iff [OF labels_lower(3)] toLowerCase_iff [OF labels_lower(4)]
        toLowerCase_iff [OF labels_lower(5)] toLowerCase_iff [OF labels_lower(6)])
  have general: "getStatusColor s =
      (if casingOf ''healthy'' s \<or> casingOf ''active'' s \<or> casingOf ''running'' s then ''success''
       else if casingOf ''warning'' s then ''warning''
       else if casingOf ''error'' s \<or> casingOf ''failed'' s then ''error''
       else ''default'')"
    unfolding getStatusColor_def Let_def iff ..
  have excl: "\<not> (casingOf ''warning'' s \<and> (casingOf ''healthy'' s \<or> casingOf ''active'' s \<or> casingOf ''running'' s))"
     "\<not> ((casingOf ''error'' s \<or> casingOf ''failed'' s) \<and> (casingOf ''healthy'' s \<or> casingOf ''active'' s \<or> casingOf ''running'' s \<or> casingOf ''warning'' s))"
    unfolding iff [symmetric] by auto
  have ex1: "getStatusColor ''HEALTHY'' = ''success''"
    by (simp add: getStatusColor_def toLowerCase_def toLowerCaseChar_def Let_def char_of_eq_iff)
  have ex2: "getStatusColor ''healthy'' = ''success''"
    by (simp add: getStatusColor_def toLowerCase_def toLowerCaseChar_def Let_def)
  have ex3: "getStatusColor ''unknown-label'' = ''default''"
    by (simp add: getStatusColor_def toLowerCase_def toLowerCaseChar_def Let_def)
  show ?thesis using excl ex1 ex2 ex3 unfolding general by auto
qed

theorem getStatusColor_buckets_witness:
  "casingOf ''running'' ''RuNnInG'' \<and> getStatusColor ''RuNnInG'' = ''success''
   \<and> casingOf ''failed'' ''Failed'' \<and> getStatusColor ''Failed'' = ''error''
   \<and> casingOf ''warning'' ''WARNING'' \<and> getStatusColor ''WARNING'' = ''warning''
   \<and> getStatusColor ''degraded'' = ''default''"
proof -
  have c: "casingOf ''running'' ''RuNnInG''" "casingOf ''failed'' ''Failed''"
      "casingOf ''warning'' ''WARNING''"
    by (simp_all add: casingOf_def sameLetter_def)
  have d: "getStatusColor ''degraded'' = ''default''"
    by (simp add: getStatusColor_def toLowerCase_def toLowerCaseChar_def Let_def)
  show ?thesis
    using getStatusColor_buckets [of "''RuNnInG''"] getStatusColor_buckets [of "''Failed''"]
      getStatusColor_buckets [of "''WARNING''"] c d
    by simp
qed

end
